theory Spec2Isabelle
  imports
    Complex_Main
    "HOL-Library.Finite_Map"
    "HOL-Library.AList"
    "HOL-Library.Char_ord"
    "HOL-Library.List_Lexorder"
    "HOL-Library.Product_Lexorder"
begin

section \<open>The key-value store behind \<open>Storage\<close>\<close>

text \<open>
  \<open>pandora/storage_client.py\<close> talks to a Redis-compatible store through the client
  handle \<open>self.storage\<close>. The store is modelled as explicit state: a map from keys to
  typed values plus the time-to-live attached to a key by \<open>expire\<close>.

  \<^item> A Python \<open>str\<close> is a \<open>string\<close>; one \<open>char\<close> stands for one character with code point
    below 256, ordered by code point (\<open>Char_ord\<close>), strings lexicographically
    (\<open>List_Lexorder\<close>), which is Python's \<open>str\<close> comparison.
  \<^item> A Python \<open>dict[str, str]\<close> and a stored hash are finite maps: equality is equality
    field by field, as Python's \<open>==\<close> on dicts.
  \<^item> A stored set is the list of its members in the order in which \<open>smembers\<close> hands
    them to the \<open>for\<close> loop; the store leaves that order open, so does the model (every
    order is a state).
  \<^item> A stored ordered set is an association list from member to score; a score is the
    real number that the float denotes.
  \<^item> Every exception the code can raise on a given state is a value of \<open>error\<close>.
    Connection failures are outside the model.
\<close>

type_synonym dict = "(string, string) fmap"

datatype rvalue =
    Hash dict
  | SetV "string list"
  | ZSet "(string \<times> real) list"

record store =
  kv :: "string \<Rightarrow> rvalue option"
  ttl :: "string \<Rightarrow> int option"

datatype error =
    KeyError string
  | ValueError
  | DataError
  | WrongType
  | NotAFloat
  | NotAnInteger
  | InvalidExpireTime

text \<open>A range bound as the store reads the \<open>min\<close> and \<open>max\<close> arguments (\<open>str | float\<close> in
  the code, sent as text): a finite number (inclusive), \<open>(\<close> before a finite number
  (exclusive), an infinity of either sign, or anything else (text that is no such bound, a
  NaN), which the store rejects. Stored scores are finite, so an exclusive infinity selects
  what the inclusive one does.\<close>

datatype bound = Incl real | Excl real | NegInf | PosInf | BadBound

definition del_key :: "store \<Rightarrow> string \<Rightarrow> store" where
  "del_key s k = s\<lparr>kv := (kv s)(k := None), ttl := (ttl s)(k := None)\<rparr>"

definition put :: "store \<Rightarrow> string \<Rightarrow> rvalue \<Rightarrow> store" where
  "put s k v = s\<lparr>kv := (kv s)(k \<mapsto> v)\<rparr>"

definition hgetall :: "store \<Rightarrow> string \<Rightarrow> error + dict" where
  "hgetall s k =
     (case kv s k of
        None \<Rightarrow> Inr fmempty
      | Some (Hash h) \<Rightarrow> Inr h
      | Some _ \<Rightarrow> Inl WrongType)"

definition hmset :: "store \<Rightarrow> string \<Rightarrow> dict \<Rightarrow> error + store" where
  "hmset s k mapping =
     (if fmdom mapping = {||} then Inl DataError
      else case kv s k of
        None \<Rightarrow> Inr (put s k (Hash mapping))
      | Some (Hash h) \<Rightarrow> Inr (put s k (Hash (h ++\<^sub>f mapping)))
      | Some _ \<Rightarrow> Inl WrongType)"

definition hset :: "store \<Rightarrow> string \<Rightarrow> string \<Rightarrow> string \<Rightarrow> error + store" where
  "hset s k field v =
     (case kv s k of
        None \<Rightarrow> Inr (put s k (Hash (fmupd field v fmempty)))
      | Some (Hash h) \<Rightarrow> Inr (put s k (Hash (fmupd field v h)))
      | Some _ \<Rightarrow> Inl WrongType)"

definition hexists :: "store \<Rightarrow> string \<Rightarrow> string \<Rightarrow> error + bool" where
  "hexists s k field =
     (case kv s k of
        None \<Rightarrow> Inr False
      | Some (Hash h) \<Rightarrow> Inr (fmlookup h field \<noteq> None)
      | Some _ \<Rightarrow> Inl WrongType)"

text \<open>A hash that loses its last field is removed from the store, as is a set that loses
  its last member.\<close>

definition hdel :: "store \<Rightarrow> string \<Rightarrow> string \<Rightarrow> error + store" where
  "hdel s k field =
     (case kv s k of
        None \<Rightarrow> Inr s
      | Some (Hash h) \<Rightarrow>
          (let h' = fmdrop field h
           in if fmdom h' = {||} then Inr (del_key s k) else Inr (put s k (Hash h')))
      | Some _ \<Rightarrow> Inl WrongType)"

text \<open>\<open>expire\<close> reads its time-to-live before it looks at the key. The store keeps the
  moment of expiry as a signed 64-bit count of milliseconds: it refuses a number of seconds
  that is no 64-bit integer, one whose conversion to milliseconds overflows, and one that
  overflows when added to the store's clock \<open>now_ms\<close> (milliseconds since the epoch, at the
  time of the call). A missing key is left alone; a time-to-live that is not positive
  deletes the key at once.\<close>

definition llong_max :: int where
  "llong_max = 2 ^ 63 - 1"

definition expire :: "int \<Rightarrow> store \<Rightarrow> string \<Rightarrow> int \<Rightarrow> error + store" where
  "expire now_ms s k seconds =
     (if seconds < - llong_max - 1 \<or> llong_max < seconds then Inl NotAnInteger
      else if llong_max div 1000 < seconds \<or> seconds < - ((llong_max + 1) div 1000)
        then Inl InvalidExpireTime
      else if llong_max - now_ms < seconds * 1000 then Inl InvalidExpireTime
      else case kv s k of
        None \<Rightarrow> Inr s
      | Some _ \<Rightarrow>
          if seconds \<le> 0 then Inr (del_key s k)
          else Inr (s\<lparr>ttl := (ttl s)(k \<mapsto> seconds)\<rparr>))"

definition smembers :: "store \<Rightarrow> string \<Rightarrow> error + string list" where
  "smembers s k =
     (case kv s k of
        None \<Rightarrow> Inr []
      | Some (SetV ms) \<Rightarrow> Inr ms
      | Some _ \<Rightarrow> Inl WrongType)"

definition sadd :: "store \<Rightarrow> string \<Rightarrow> string \<Rightarrow> error + store" where
  "sadd s k m =
     (case kv s k of
        None \<Rightarrow> Inr (put s k (SetV [m]))
      | Some (SetV ms) \<Rightarrow> Inr (if m \<in> set ms then s else put s k (SetV (ms @ [m])))
      | Some _ \<Rightarrow> Inl WrongType)"

definition srem :: "store \<Rightarrow> string \<Rightarrow> string list \<Rightarrow> error + store" where
  "srem s k gone =
     (case kv s k of
        None \<Rightarrow> Inr s
      | Some (SetV ms) \<Rightarrow>
          (let ms' = filter (\<lambda>m. m \<notin> set gone) ms
           in if ms' = [] then Inr (del_key s k) else Inr (put s k (SetV ms')))
      | Some _ \<Rightarrow> Inl WrongType)"

definition zadd :: "store \<Rightarrow> string \<Rightarrow> string \<Rightarrow> real \<Rightarrow> error + store" where
  "zadd s k m score =
     (case kv s k of
        None \<Rightarrow> Inr (put s k (ZSet [(m, score)]))
      | Some (ZSet z) \<Rightarrow> Inr (put s k (ZSet (AList.update m score z)))
      | Some _ \<Rightarrow> Inl WrongType)"

fun above_min :: "bound \<Rightarrow> real \<Rightarrow> bool" where
  "above_min (Incl a) x = (a \<le> x)"
| "above_min (Excl a) x = (a < x)"
| "above_min NegInf x = True"
| "above_min PosInf x = False"
| "above_min BadBound x = False"

fun below_max :: "bound \<Rightarrow> real \<Rightarrow> bool" where
  "below_max (Incl b) x = (x \<le> b)"
| "below_max (Excl b) x = (x < b)"
| "below_max NegInf x = False"
| "below_max PosInf x = True"
| "below_max BadBound x = False"

definition in_range :: "bound \<Rightarrow> bound \<Rightarrow> string \<times> real \<Rightarrow> bool" where
  "in_range mn mx e = (above_min mn (snd e) \<and> below_max mx (snd e))"

text \<open>Both range commands read their bounds before they look at the key. The ordered set
  is kept by score, members of equal score by name; \<open>zrevrangebyscore\<close> walks it from the
  top.\<close>

definition zrevrangebyscore :: "store \<Rightarrow> string \<Rightarrow> bound \<Rightarrow> bound \<Rightarrow> error + string list" where
  "zrevrangebyscore s k mn mx =
     (if mn = BadBound \<or> mx = BadBound then Inl NotAFloat
      else case kv s k of
        None \<Rightarrow> Inr []
      | Some (ZSet z) \<Rightarrow>
          Inr (map fst (rev (sort_key (\<lambda>e. (snd e, fst e)) (filter (in_range mn mx) z))))
      | Some _ \<Rightarrow> Inl WrongType)"

definition zcount :: "store \<Rightarrow> string \<Rightarrow> bound \<Rightarrow> bound \<Rightarrow> error + nat" where
  "zcount s k mn mx =
     (if mn = BadBound \<or> mx = BadBound then Inl NotAFloat
      else case kv s k of
        None \<Rightarrow> Inr 0
      | Some (ZSet z) \<Rightarrow> Inr (length (filter (in_range mn mx) z))
      | Some _ \<Rightarrow> Inl WrongType)"

section \<open>Python helpers used by the accessors\<close>

text \<open>\<open>d[k]\<close> on a dict: the value, or \<open>KeyError\<close>.\<close>

definition getitem :: "dict \<Rightarrow> string \<Rightarrow> error + string" where
  "getitem d k = (case fmlookup d k of None \<Rightarrow> Inl (KeyError k) | Some v \<Rightarrow> Inr v)"

text \<open>\<open>str.isspace\<close> on the characters below 256, and \<open>str.strip()\<close>.\<close>

definition isspace :: "char \<Rightarrow> bool" where
  "isspace c = ((of_char c :: nat) \<in> {9, 10, 11, 12, 13, 28, 29, 30, 31, 32, 133, 160})"

definition strip :: "string \<Rightarrow> string" where
  "strip x = rev (dropWhile isspace (rev (dropWhile isspace x)))"

text \<open>\<open>xs.sort(key=operator.itemgetter(k), reverse=True)\<close>: the key of every element is
  taken first (a missing field raises \<open>KeyError\<close>), then the list is sorted by key,
  descending, elements of equal key keeping their order.\<close>

fun item_keys :: "string \<Rightarrow> dict list \<Rightarrow> error + string list" where
  "item_keys k [] = Inr []"
| "item_keys k (d # ds) =
     (case getitem d k of
        Inl e \<Rightarrow> Inl e
      | Inr v \<Rightarrow> (case item_keys k ds of Inl e \<Rightarrow> Inl e | Inr vs \<Rightarrow> Inr (v # vs)))"

definition sort_by_item_desc :: "string \<Rightarrow> dict list \<Rightarrow> error + dict list" where
  "sort_by_item_desc k ds =
     (case item_keys k ds of
        Inl e \<Rightarrow> Inl e
      | Inr vs \<Rightarrow> Inr (map snd (rev (sort_key fst (rev (zip vs ds))))))"

section \<open>The accessors of \<open>Storage\<close>\<close>

subsection \<open>User\<close>

definition get_user :: "store \<Rightarrow> string \<Rightarrow> error + dict" where
  "get_user s user_id = hgetall s (''users:'' @ user_id)"

text \<open>\<open>session_expire\<close> is the value of \<open>get_config('generic', 'session_expire')\<close>;
  \<open>now_ms\<close> is the store's clock when the \<open>expire\<close> command arrives.\<close>

definition set_user :: "int \<Rightarrow> int \<Rightarrow> store \<Rightarrow> dict \<Rightarrow> (error + unit) \<times> store" where
  "set_user session_expire now_ms s user =
     (case getitem user ''session_id'' of
        Inl e \<Rightarrow> (Inl e, s)
      | Inr sid \<Rightarrow>
          (case hmset s (''users:'' @ sid) user of
             Inl e \<Rightarrow> (Inl e, s)
           | Inr s1 \<Rightarrow>
               (case expire now_ms s1 (''users:'' @ sid) session_expire of
                  Inl e \<Rightarrow> (Inl e, s1)
                | Inr s2 \<Rightarrow>
                    (case sadd s2 ''users'' sid of
                       Inl e \<Rightarrow> (Inl e, s2)
                     | Inr s3 \<Rightarrow> (Inr (), s3)))))"

fun get_users_loop ::
  "store \<Rightarrow> string list \<Rightarrow> dict list \<Rightarrow> string list \<Rightarrow> error + dict list \<times> string list" where
  "get_users_loop s [] users to_pop = Inr (users, to_pop)"
| "get_users_loop s (session_id # rest) users to_pop =
     (case hgetall s (''users:'' @ session_id) of
        Inl e \<Rightarrow> Inl e
      | Inr user \<Rightarrow>
          if fmdom user \<noteq> {||} then get_users_loop s rest (users @ [user]) to_pop
          else get_users_loop s rest users (to_pop @ [session_id]))"

definition get_users :: "store \<Rightarrow> (error + dict list) \<times> store" where
  "get_users s =
     (case smembers s ''users'' of
        Inl e \<Rightarrow> (Inl e, s)
      | Inr ms \<Rightarrow>
          (case get_users_loop s ms [] [] of
             Inl e \<Rightarrow> (Inl e, s)
           | Inr (users, to_pop) \<Rightarrow>
               (case (if to_pop \<noteq> [] then srem s ''users'' to_pop else Inr s) of
                  Inl e \<Rightarrow> (Inl e, s)
                | Inr s1 \<Rightarrow> (sort_by_item_desc ''last_seen'' users, s1))))"

subsection \<open>Role\<close>

definition get_role :: "store \<Rightarrow> string \<Rightarrow> error + dict" where
  "get_role s role_name = hgetall s (''roles:'' @ role_name)"

fun get_roles_loop :: "store \<Rightarrow> string list \<Rightarrow> dict list \<Rightarrow> error + dict list" where
  "get_roles_loop s [] roles = Inr roles"
| "get_roles_loop s (role_name # rest) roles =
     (case get_role s role_name of
        Inl e \<Rightarrow> Inl e
      | Inr role \<Rightarrow> get_roles_loop s rest (roles @ [role]))"

definition get_roles :: "store \<Rightarrow> error + dict list" where
  "get_roles s =
     (case smembers s ''roles'' of
        Inl e \<Rightarrow> Inl e
      | Inr ms \<Rightarrow> get_roles_loop s (sort ms) [])"


subsection \<open>Observable\<close>

text \<open>\<open>fromisoformat\<close> stands for \<open>datetime.fromisoformat(x).timestamp()\<close> of the standard
  library: the epoch value of a date string, or \<open>None\<close> where it raises \<open>ValueError\<close>.\<close>

definition timestamp_of :: "(string \<Rightarrow> real option) \<Rightarrow> string \<Rightarrow> error + real" where
  "timestamp_of fromisoformat x =
     (case fromisoformat x of None \<Rightarrow> Inl ValueError | Some t \<Rightarrow> Inr t)"

definition set_observable ::
  "(string \<Rightarrow> real option) \<Rightarrow> store \<Rightarrow> dict \<Rightarrow> (error + unit) \<times> store" where
  "set_observable fromisoformat s observable =
     (case getitem observable ''last_seen'' of
        Inl e \<Rightarrow> (Inl e, s)
      | Inr last_seen \<Rightarrow>
     (case timestamp_of fromisoformat last_seen of
        Inl e \<Rightarrow> (Inl e, s)
      | Inr timestamp \<Rightarrow>
     (case getitem observable ''sha256'' of
        Inl e \<Rightarrow> (Inl e, s)
      | Inr sha256 \<Rightarrow>
     (case getitem observable ''observable_type'' of
        Inl e \<Rightarrow> (Inl e, s)
      | Inr observable_type \<Rightarrow>
     (let identifier = sha256 @ ''-'' @ observable_type
      in case hmset s (''observables:'' @ identifier) observable of
        Inl e \<Rightarrow> (Inl e, s)
      | Inr s1 \<Rightarrow>
     (case hexists s1 (''observables:'' @ identifier) ''warninglist'' of
        Inl e \<Rightarrow> (Inl e, s1)
      | Inr legacy \<Rightarrow>
     (case (if legacy then hdel s1 (''observables:'' @ identifier) ''warninglist'' else Inr s1) of
        Inl e \<Rightarrow> (Inl e, s1)
      | Inr s2 \<Rightarrow>
     (case zadd s2 ''observables'' identifier timestamp of
        Inl e \<Rightarrow> (Inl e, s2)
      | Inr s3 \<Rightarrow> (Inr (), s3)))))))))"

text \<open>An argument left at its default \<open>None\<close> is \<open>None\<close> here; the f-string prints it
  as \<open>None\<close>. \<open>not identifier\<close> holds for \<open>None\<close> and for the empty string.\<close>

definition fmt :: "string option \<Rightarrow> string" where
  "fmt x = (case x of None \<Rightarrow> ''None'' | Some v \<Rightarrow> v)"

definition get_observable ::
  "store \<Rightarrow> string option \<Rightarrow> string option \<Rightarrow> string option \<Rightarrow> error + dict" where
  "get_observable s sha256 observable_type identifier =
     (let composed = fmt sha256 @ ''-'' @ fmt observable_type;
          identifier' =
            (case identifier of
               None \<Rightarrow> composed
             | Some i \<Rightarrow> if i = [] then composed else i)
      in hgetall s (''observables:'' @ identifier'))"



definition add_task_observable :: "store \<Rightarrow> string \<Rightarrow> string \<Rightarrow> string \<Rightarrow> (error + unit) \<times> store" where
  "add_task_observable s task_uuid sha256 observable_type =
     (case sadd s (task_uuid @ '':observables'') (sha256 @ ''-'' @ observable_type) of
        Inl e \<Rightarrow> (Inl e, s)
      | Inr s1 \<Rightarrow> (Inr (), s1))"

subsection \<open>Observables lists\<close>

definition get_suspicious_observables :: "store \<Rightarrow> error + dict" where
  "get_suspicious_observables s = hgetall s ''suspicious_observables''"

definition add_suspicious_observable :: "store \<Rightarrow> string \<Rightarrow> string \<Rightarrow> (error + unit) \<times> store" where
  "add_suspicious_observable s observable observable_type =
     (case hset s ''suspicious_observables'' (strip observable) (strip observable_type) of
        Inl e \<Rightarrow> (Inl e, s)
      | Inr s1 \<Rightarrow> (Inr (), s1))"

definition delete_suspicious_observable :: "store \<Rightarrow> string \<Rightarrow> (error + unit) \<times> store" where
  "delete_suspicious_observable s observable =
     (case hdel s ''suspicious_observables'' (strip observable) of
        Inl e \<Rightarrow> (Inl e, s)
      | Inr s1 \<Rightarrow> (Inr (), s1))"

subsection \<open>File\<close>







subsection \<open>Task\<close>

definition get_task :: "store \<Rightarrow> string \<Rightarrow> error + dict" where
  "get_task s task_id = hgetall s (''tasks:'' @ task_id)"

definition set_task ::
  "(string \<Rightarrow> real option) \<Rightarrow> store \<Rightarrow> dict \<Rightarrow> (error + unit) \<times> store" where
  "set_task fromisoformat s task =
     (case getitem task ''save_date'' of
        Inl e \<Rightarrow> (Inl e, s)
      | Inr save_date \<Rightarrow>
     (case timestamp_of fromisoformat save_date of
        Inl e \<Rightarrow> (Inl e, s)
      | Inr timestamp \<Rightarrow>
     (case getitem task ''uuid'' of
        Inl e \<Rightarrow> (Inl e, s)
      | Inr uuid \<Rightarrow>
     (case hmset s (''tasks:'' @ uuid) task of
        Inl e \<Rightarrow> (Inl e, s)
      | Inr s1 \<Rightarrow>
     (case zadd s1 ''tasks'' uuid timestamp of
        Inl e \<Rightarrow> (Inl e, s1)
      | Inr s2 \<Rightarrow> (Inr (), s2))))))"

fun get_tasks_loop :: "store \<Rightarrow> string list \<Rightarrow> dict list \<Rightarrow> error + dict list" where
  "get_tasks_loop s [] tasks = Inr tasks"
| "get_tasks_loop s (uuid # rest) tasks =
     (case get_task s uuid of
        Inl e \<Rightarrow> Inl e
      | Inr task \<Rightarrow> get_tasks_loop s rest (tasks @ [task]))"

text \<open>The defaults of the keyword arguments are \<open>first_date = Incl 0\<close> and
  \<open>last_date = PosInf\<close>.\<close>

definition get_tasks :: "store \<Rightarrow> bound \<Rightarrow> bound \<Rightarrow> error + dict list" where
  "get_tasks s first_date last_date =
     (case zrevrangebyscore s ''tasks'' first_date last_date of
        Inl e \<Rightarrow> Inl e
      | Inr uuids \<Rightarrow>
          (case get_tasks_loop s uuids [] of
             Inl e \<Rightarrow> Inl e
           | Inr tasks \<Rightarrow> sort_by_item_desc ''save_date'' tasks))"

definition count_tasks :: "store \<Rightarrow> bound \<Rightarrow> bound \<Rightarrow> error + nat" where
  "count_tasks s first_date last_date = zcount s ''tasks'' first_date last_date"

subsection \<open>Report\<close>

definition get_report :: "store \<Rightarrow> string \<Rightarrow> string \<Rightarrow> error + dict" where
  "get_report s task_uuid worker_name =
     hgetall s (''reports:'' @ task_uuid @ ''-'' @ worker_name)"

definition set_report :: "store \<Rightarrow> dict \<Rightarrow> (error + unit) \<times> store" where
  "set_report s report =
     (case getitem report ''task_uuid'' of
        Inl e \<Rightarrow> (Inl e, s)
      | Inr task_uuid \<Rightarrow>
     (case getitem report ''worker_name'' of
        Inl e \<Rightarrow> (Inl e, s)
      | Inr worker_name \<Rightarrow>
     (case hmset s (''reports:'' @ task_uuid @ ''-'' @ worker_name) report of
        Inl e \<Rightarrow> (Inl e, s)
      | Inr s1 \<Rightarrow>
     (case hdel s1 (''tasks:'' @ task_uuid) ''status'' of
        Inl e \<Rightarrow> (Inl e, s1)
      | Inr s2 \<Rightarrow> (Inr (), s2)))))"

section \<open>Vocabulary of the statements\<close>

text \<open>The record a key resolves to, for stating what a loop collects; and the states in
  which every member of the \<open>tasks\<close> ordered index has a record that carries \<open>save_date\<close>,
  which is what \<open>set_task\<close> writes.\<close>

definition record_at :: "store \<Rightarrow> string \<Rightarrow> dict" where
  "record_at s k = (case kv s k of Some (Hash h) \<Rightarrow> h | _ \<Rightarrow> fmempty)"

definition tasks_backed :: "store \<Rightarrow> bool" where
  "tasks_backed s =
     (case kv s ''tasks'' of
        Some (ZSet z) \<Rightarrow>
          list_all (\<lambda>e. case kv s (''tasks:'' @ fst e) of
                          Some (Hash h) \<Rightarrow> fmlookup h ''save_date'' \<noteq> None
                        | _ \<Rightarrow> False) z
      | _ \<Rightarrow> True)"

section \<open>Example states and records\<close>

text \<open>A fresh store, a stand-in for the date parser that knows two dates, and two versions
  of one session record.\<close>

definition empty_store :: store where
  "empty_store = \<lparr>kv = (\<lambda>_. None), ttl = (\<lambda>_. None)\<rparr>"

definition iso_demo :: "string \<Rightarrow> real option" where
  "iso_demo x =
     (if x = ''2024-01-01T00:00:00+00:00'' then Some 1704067200
      else if x = ''2024-01-02T00:00:00+00:00'' then Some 1704153600
      else None)"



text \<open>A store with two sessions and one expired session id still in the index, two
  roles, two tasks, and a task whose observable set names one observable that was never
  stored; and a store whose \<open>tasks\<close> index names a task that has no record.\<close>

definition demo_store :: store where
  "demo_store =
     \<lparr>kv = [''users'' \<mapsto> SetV [''u1'', ''gone'', ''u2''],
            ''users:u1'' \<mapsto> Hash (fmap_of_list [(''session_id'', ''u1''), (''last_seen'', ''2024-01-01'')]),
            ''users:u2'' \<mapsto> Hash (fmap_of_list [(''session_id'', ''u2''), (''last_seen'', ''2024-01-02'')]),
            ''roles'' \<mapsto> SetV [''reader'', ''admin''],
            ''roles:reader'' \<mapsto> Hash (fmap_of_list [(''name'', ''reader'')]),
            ''roles:admin'' \<mapsto> Hash (fmap_of_list [(''name'', ''admin'')]),
            ''tasks'' \<mapsto> ZSet [(''t1'', 1704067200), (''t2'', 1704153600)],
            ''tasks:t1'' \<mapsto> Hash (fmap_of_list [(''uuid'', ''t1''), (''save_date'', ''2024-01-01T00:00:00+00:00'')]),
            ''tasks:t2'' \<mapsto> Hash (fmap_of_list [(''uuid'', ''t2''), (''save_date'', ''2024-01-02T00:00:00+00:00'')]),
            ''t1:observables'' \<mapsto> SetV [''ab-ip'', ''cd-domain''],
            ''observables:ab-ip'' \<mapsto> Hash (fmap_of_list [(''sha256'', ''ab''), (''observable_type'', ''ip'')])],
      ttl = (\<lambda>_. None)\<rparr>"







section \<open>Basic facts about the store primitives\<close>

lemma getitem_Some: "fmlookup d k = Some v \<Longrightarrow> getitem d k = Inr v"
  by (simp add: getitem_def)

lemma fmdom_nonempty: "fmlookup d k = Some v \<Longrightarrow> fmdom d \<noteq> {||}"
  by (auto dest: fmdomI)

lemma hgetall_Inr_cases:
  "hgetall s k = Inr h \<Longrightarrow> (kv s k = None \<and> h = fmempty) \<or> kv s k = Some (Hash h)"
  by (auto simp: hgetall_def split: option.splits rvalue.splits)

lemma fmdom_empty_iff: "fmdom m = {||} \<longleftrightarrow> m = fmempty"
proof
  assume e: "fmdom m = {||}"
  show "m = fmempty"
  proof (rule fmap_ext)
    fix x
    have "x |\<notin>| fmdom m" using e by simp
    then show "fmlookup m x = fmlookup fmempty x" by (simp add: fmdom_notD)
  qed
qed simp

lemma put_kv [simp]: "kv (put s k v) = (kv s)(k \<mapsto> v)"
  by (simp add: put_def)

lemma put_ttl [simp]: "ttl (put s k v) = ttl s"
  by (simp add: put_def)

lemma put_put [simp]: "put (put s k v) k w = put s k w"
  by (simp add: put_def)

lemma del_key_kv [simp]: "kv (del_key s k) = (kv s)(k := None)"
  by (simp add: del_key_def)

lemma hgetall_kv_cong: "kv s' k = kv s k \<Longrightarrow> hgetall s' k = hgetall s k"
  by (simp add: hgetall_def)

lemma smembers_kv_cong: "kv s' k = kv s k \<Longrightarrow> smembers s' k = smembers s k"
  by (simp add: smembers_def)

lemma hgetall_put_same [simp]: "hgetall (put s k (Hash h)) k = Inr h"
  by (simp add: hgetall_def)

lemma hgetall_put_other [simp]: "k' \<noteq> k \<Longrightarrow> hgetall (put s k v) k' = hgetall s k'"
  by (simp add: hgetall_def)

lemma hgetall_del_key [simp]:
  "hgetall (del_key s k) k' = (if k' = k then Inr fmempty else hgetall s k')"
  by (simp add: hgetall_def)

lemma hmset_ok:
  "hgetall s k = Inr h \<Longrightarrow> fmdom r \<noteq> {||} \<Longrightarrow> hmset s k r = Inr (put s k (Hash (h ++\<^sub>f r)))"
  by (auto simp: hmset_def dest!: hgetall_Inr_cases)

lemma hset_ok:
  "hgetall s k = Inr h \<Longrightarrow> hset s k f v = Inr (put s k (Hash (fmupd f v h)))"
  by (auto simp: hset_def dest!: hgetall_Inr_cases)

lemma hdel_ok:
  assumes "hgetall s k = Inr h"
  shows "\<exists>s'. hdel s k f = Inr s' \<and> hgetall s' k = Inr (fmdrop f h)
           \<and> (\<forall>k'. k' \<noteq> k \<longrightarrow> kv s' k' = kv s k')"
  using hgetall_Inr_cases [OF assms]
  by (auto simp: hdel_def hgetall_def Let_def fmdom_empty_iff simp del: fmdom_drop)

lemma smembers_Inr_cases:
  "smembers s k = Inr ms \<Longrightarrow> (kv s k = None \<and> ms = []) \<or> kv s k = Some (SetV ms)"
  by (auto simp: smembers_def split: option.splits rvalue.splits)

lemma sadd_ok:
  assumes "smembers s k = Inr ms"
  shows "\<exists>s'. sadd s k m = Inr s'
           \<and> smembers s' k = Inr (if m \<in> set ms then ms else ms @ [m])
           \<and> (\<forall>k'. k' \<noteq> k \<longrightarrow> kv s' k' = kv s k')"
  using smembers_Inr_cases [OF assms]
  by (auto simp: sadd_def smembers_def)


lemma expire_rejects:
  "llong_max div 1000 < n \<Longrightarrow> \<exists>e. expire now_ms s k n = Inl e"
  by (simp add: expire_def)

lemma expire_deletes:
  assumes "n \<le> 0" and "- ((llong_max + 1) div 1000) \<le> n" and "n * 1000 \<le> llong_max - now_ms"
    and "kv s k = Some v"
  shows "expire now_ms s k n = Inr (del_key s k)"
proof -
  have "- llong_max - 1 \<le> - ((llong_max + 1) div 1000)" "0 \<le> llong_max div 1000"
    "0 \<le> llong_max"
    by (simp_all add: llong_max_def)
  then show ?thesis
    using assms by (auto simp: expire_def)
qed

lemma hgetall_record_at: "hgetall s k = Inr h \<Longrightarrow> record_at s k = h"
  by (auto simp: hgetall_def record_at_def split: option.splits rvalue.splits)

lemma srem_ok:
  assumes "smembers s k = Inr ms"
  shows "\<exists>s'. srem s k gone = Inr s'
           \<and> smembers s' k = Inr (filter (\<lambda>m. m \<notin> set gone) ms)
           \<and> (\<forall>k'. k' \<noteq> k \<longrightarrow> kv s' k' = kv s k')"
  using smembers_Inr_cases [OF assms]
  by (auto simp: srem_def smembers_def Let_def)



lemma set_report_result:
  assumes "fmlookup report ''task_uuid'' = Some T"
    and "fmlookup report ''worker_name'' = Some W"
    and "get_report s T W = Inr old"
    and "get_task s T = Inr task"
  shows "\<exists>s'. set_report s report = (Inr (), s')
           \<and> get_report s' T W = Inr (old ++\<^sub>f report)
           \<and> get_task s' T = Inr (fmdrop ''status'' task)
           \<and> (\<forall>k. k \<noteq> ''reports:'' @ T @ ''-'' @ W \<and> k \<noteq> ''tasks:'' @ T \<longrightarrow> kv s' k = kv s k)"
proof -
  let ?rk = "''reports:'' @ T @ ''-'' @ W"
  let ?tk = "''tasks:'' @ T"
  let ?s1 = "put s ?rk (Hash (old ++\<^sub>f report))"
  have ne: "?tk \<noteq> ?rk" by simp
  have w: "hmset s ?rk report = Inr ?s1"
    using assms(3) fmdom_nonempty [OF assms(1)] by (simp add: get_report_def hmset_ok)
  have t1: "hgetall ?s1 ?tk = Inr task"
    using assms(4) by (simp add: get_task_def)
  obtain s2 where d: "hdel ?s1 ?tk ''status'' = Inr s2"
    and g: "hgetall s2 ?tk = Inr (fmdrop ''status'' task)"
    and fr: "\<forall>k'. k' \<noteq> ?tk \<longrightarrow> kv s2 k' = kv ?s1 k'"
    using hdel_ok [OF t1] by blast
  have "set_report s report = (Inr (), s2)"
    using assms(1,2) w d by (simp add: set_report_def getitem_Some)
  moreover have "get_report s2 T W = Inr (old ++\<^sub>f report)"
    using fr ne by (simp add: get_report_def hgetall_def)
  moreover have "get_task s2 T = Inr (fmdrop ''status'' task)"
    using g by (simp add: get_task_def)
  moreover have "\<forall>k. k \<noteq> ?rk \<and> k \<noteq> ?tk \<longrightarrow> kv s2 k = kv s k"
    using fr by simp
  ultimately show ?thesis by blast
qed




section \<open>Sorting by a field\<close>

lemma item_keys_lookup:
  "item_keys k ds = Inr vs \<Longrightarrow> map (\<lambda>d. fmlookup d k) ds = map Some vs"
  by (induction ds arbitrary: vs) (auto simp: getitem_def split: option.splits sum.splits)

lemma item_keys_total:
  "\<forall>d\<in>set ds. fmlookup d k \<noteq> None \<Longrightarrow> \<exists>vs. item_keys k ds = Inr vs"
  by (induction ds) (auto simp: getitem_def split: option.splits sum.splits)

lemma zip_keys_lookup:
  assumes "map (\<lambda>d. fmlookup d k) ds = map Some vs" and "p \<in> set (zip vs ds)"
  shows "fmlookup (snd p) k = Some (fst p)"
proof -
  from assms(2) obtain i where i: "i < length vs" "i < length ds" "p = (vs ! i, ds ! i)"
    by (auto simp: set_zip)
  have "map (\<lambda>d. fmlookup d k) ds ! i = map Some vs ! i"
    using assms(1) by simp
  then show ?thesis using i by simp
qed

lemma sort_by_item_desc_sorted:
  assumes "sort_by_item_desc k ds = Inr out"
  shows "\<exists>ks. map (\<lambda>d. fmlookup d k) out = map Some ks \<and> sorted (rev ks)"
proof -
  obtain vs where vs: "item_keys k ds = Inr vs"
    and out: "out = map snd (rev (sort_key fst (rev (zip vs ds))))"
    using assms by (auto simp: sort_by_item_desc_def split: sum.splits)
  let ?ps = "rev (sort_key fst (rev (zip vs ds)))"
  have "\<forall>p\<in>set ?ps. fmlookup (snd p) k = Some (fst p)"
    using zip_keys_lookup [OF item_keys_lookup [OF vs]] by simp
  then have "map (\<lambda>d. fmlookup d k) out = map Some (map fst ?ps)"
    unfolding out by (simp add: comp_def)
  moreover have "sorted (rev (map fst ?ps))"
    by (simp add: rev_map)
  ultimately show ?thesis by blast
qed

lemma sort_by_item_desc_set:
  assumes "sort_by_item_desc k ds = Inr out"
  shows "set out = set ds \<and> length out = length ds"
proof -
  obtain vs where vs: "item_keys k ds = Inr vs"
    and out: "out = map snd (rev (sort_key fst (rev (zip vs ds))))"
    using assms by (auto simp: sort_by_item_desc_def split: sum.splits)
  have len: "length vs = length ds"
    using item_keys_lookup [OF vs] by (metis length_map)
  have "set out = snd ` set (zip vs ds)"
    unfolding out by simp
  also have "\<dots> = set (map snd (zip vs ds))" by simp
  also have "\<dots> = set ds" using len by (simp del: set_map)
  finally show ?thesis unfolding out using len by simp
qed

lemma sort_by_item_desc_total:
  "\<forall>d\<in>set ds. fmlookup d k \<noteq> None \<Longrightarrow> \<exists>out. sort_by_item_desc k ds = Inr out"
  using item_keys_total [of ds k] by (auto simp: sort_by_item_desc_def)

section \<open>The listing loops\<close>

lemma get_tasks_loop_map:
  "get_tasks_loop s us acc = Inr ts \<Longrightarrow> map Inr ts = map Inr acc @ map (get_task s) us"
  by (induction us arbitrary: acc) (auto split: sum.splits)

lemma get_tasks_loop_total:
  "\<forall>u\<in>set us. \<exists>h. get_task s u = Inr h \<Longrightarrow> \<exists>ts. get_tasks_loop s us acc = Inr ts"
  by (induction us arbitrary: acc) (auto split: sum.splits)

lemma get_tasks_loop_length:
  "get_tasks_loop s us acc = Inr ts \<Longrightarrow> length ts = length acc + length us"
  using get_tasks_loop_map [of s us acc ts] by (metis length_append length_map)

lemma zcount_zrevrangebyscore:
  "zcount s k a b = map_sum id length (zrevrangebyscore s k a b)"
  by (simp add: zcount_def zrevrangebyscore_def split: option.splits rvalue.splits)

lemma zrevrangebyscore_members:
  "zrevrangebyscore s k a b = Inr us \<Longrightarrow> kv s k = Some (ZSet z) \<Longrightarrow> set us \<subseteq> fst ` set z"
  by (auto simp: zrevrangebyscore_def split: if_splits)

lemma zrevrangebyscore_absent:
  "zrevrangebyscore s k a b = Inr us \<Longrightarrow> \<forall>z. kv s k \<noteq> Some (ZSet z) \<Longrightarrow> us = []"
  by (auto simp: zrevrangebyscore_def split: if_splits option.splits rvalue.splits)

lemma get_tasks_length:
  assumes "get_tasks s a b = Inr ts"
  shows "count_tasks s a b = Inr (length ts)"
proof -
  obtain us tasks where us: "zrevrangebyscore s ''tasks'' a b = Inr us"
    and l: "get_tasks_loop s us [] = Inr tasks"
    and srt: "sort_by_item_desc ''save_date'' tasks = Inr ts"
    using assms by (auto simp: get_tasks_def split: sum.splits)
  have "length ts = length us"
    using sort_by_item_desc_set [OF srt] get_tasks_loop_length [OF l] by simp
  then show ?thesis
    using us by (simp add: count_tasks_def zcount_zrevrangebyscore)
qed

lemma get_tasks_total:
  assumes b: "tasks_backed s" and us: "zrevrangebyscore s ''tasks'' a b = Inr us"
  shows "\<exists>ts. get_tasks s a b = Inr ts"
proof -
  have rec: "\<forall>u\<in>set us. \<exists>h. get_task s u = Inr h \<and> fmlookup h ''save_date'' \<noteq> None"
  proof (cases "\<exists>z. kv s ''tasks'' = Some (ZSet z)")
    case True
    then obtain z where z: "kv s ''tasks'' = Some (ZSet z)" by blast
    show ?thesis
    proof
      fix u assume "u \<in> set us"
      then obtain e where e: "e \<in> set z" "u = fst e"
        using zrevrangebyscore_members [OF us z] by auto
      then show "\<exists>h. get_task s u = Inr h \<and> fmlookup h ''save_date'' \<noteq> None"
        using b z
        by (auto simp: tasks_backed_def list_all_iff get_task_def hgetall_def
            split: option.splits rvalue.splits)
    qed
  next
    case False
    then show ?thesis using zrevrangebyscore_absent [OF us] by simp
  qed
  then obtain tasks where l: "get_tasks_loop s us [] = Inr tasks"
    using get_tasks_loop_total [of us s "[]"] by blast
  have "\<forall>d\<in>set tasks. fmlookup d ''save_date'' \<noteq> None"
  proof
    fix d assume "d \<in> set tasks"
    then have "Inr d \<in> set (map Inr tasks :: (error + dict) list)" by simp
    then have "Inr d \<in> set (map (get_task s) us)"
      using get_tasks_loop_map [OF l] by simp
    then show "fmlookup d ''save_date'' \<noteq> None" using rec by auto
  qed
  then obtain ts where "sort_by_item_desc ''save_date'' tasks = Inr ts"
    using sort_by_item_desc_total by blast
  then show ?thesis using us l by (simp add: get_tasks_def)
qed

lemma get_roles_loop_map:
  "get_roles_loop s ns acc = Inr rs \<Longrightarrow> map Inr rs = map Inr acc @ map (get_role s) ns"
  by (induction ns arbitrary: acc) (auto split: sum.splits)

lemma get_users_sorted:
  assumes "fst (get_users s) = Inr us"
  shows "\<exists>ks. map (\<lambda>u. fmlookup u ''last_seen'') us = map Some ks \<and> sorted (rev ks)"
proof -
  obtain users where "sort_by_item_desc ''last_seen'' users = Inr us"
    using assms unfolding get_users_def
    by (cases "smembers s ''users''") (auto split: sum.splits prod.splits)
  then show ?thesis by (rule sort_by_item_desc_sorted)
qed

lemma get_tasks_sorted:
  assumes "get_tasks s a b = Inr ts"
  shows "\<exists>ks. map (\<lambda>t. fmlookup t ''save_date'') ts = map Some ks \<and> sorted (rev ks)"
proof -
  obtain tasks where "sort_by_item_desc ''save_date'' tasks = Inr ts"
    using assms by (auto simp: get_tasks_def split: sum.splits)
  then show ?thesis by (rule sort_by_item_desc_sorted)
qed

lemma get_roles_sorted:
  assumes "get_roles s = Inr rs"
  shows "\<exists>ms names. smembers s ''roles'' = Inr ms \<and> names = sort ms \<and> sorted names
           \<and> map (get_role s) names = map Inr rs
           \<and> ((\<forall>n\<in>set ms. \<exists>r. get_role s n = Inr r \<and> fmlookup r ''name'' = Some n)
                \<longrightarrow> map (\<lambda>r. fmlookup r ''name'') rs = map Some names)"
proof -
  obtain ms where ms: "smembers s ''roles'' = Inr ms"
    and l: "get_roles_loop s (sort ms) [] = Inr rs"
    using assms by (auto simp: get_roles_def split: sum.splits)
  have m: "map (get_role s) (sort ms) = map Inr rs"
    using get_roles_loop_map [OF l] by simp
  have "map (\<lambda>r. fmlookup r ''name'') rs = map Some (sort ms)"
    if inv: "\<forall>n\<in>set ms. \<exists>r. get_role s n = Inr r \<and> fmlookup r ''name'' = Some n"
  proof (rule nth_equalityI)
    show "length (map (\<lambda>r. fmlookup r ''name'') rs) = length (map Some (sort ms))"
      using m by (metis length_map)
  next
    fix i assume "i < length (map (\<lambda>r. fmlookup r ''name'') rs)"
    then have i: "i < length rs" by simp
    then have i': "i < length (sort ms)" using m by (metis length_map)
    have "map (get_role s) (sort ms) ! i = map Inr rs ! i" using m by simp
    then have g: "get_role s (sort ms ! i) = Inr (rs ! i)" using i i' by simp
    have "sort ms ! i \<in> set ms" using i' by (metis nth_mem set_sort)
    then show "map (\<lambda>r. fmlookup r ''name'') rs ! i = map Some (sort ms) ! i"
      using inv g i i' by auto
  qed
  then show ?thesis using ms m by auto
qed

lemma get_users_loop_result:
  assumes "\<forall>m\<in>set ms. \<exists>h. hgetall s (''users:'' @ m) = Inr h"
  shows "get_users_loop s ms users to_pop =
           Inr (users @ filter (\<lambda>h. h \<noteq> fmempty) (map (\<lambda>m. record_at s (''users:'' @ m)) ms),
                to_pop @ filter (\<lambda>m. record_at s (''users:'' @ m) = fmempty) ms)"
  using assms
proof (induction ms arbitrary: users to_pop)
  case Nil
  then show ?case by simp
next
  case (Cons m ms)
  then obtain h where h: "hgetall s (''users:'' @ m) = Inr h" by auto
  then have r: "record_at s (''users:'' @ m) = h" by (rule hgetall_record_at)
  show ?case
    using Cons h r by (simp add: fmdom_empty_iff)
qed





lemma get_users_result:
  assumes ms: "smembers s ''users'' = Inr ms"
    and ok: "\<forall>m\<in>set ms. \<exists>h. get_user s m = Inr h"
  shows "\<exists>s'. get_users s =
            (sort_by_item_desc ''last_seen''
               (filter (\<lambda>h. h \<noteq> fmempty) (map (\<lambda>m. record_at s (''users:'' @ m)) ms)), s')
           \<and> smembers s' ''users'' = Inr (filter (\<lambda>m. record_at s (''users:'' @ m) \<noteq> fmempty) ms)
           \<and> (\<forall>k. k \<noteq> ''users'' \<longrightarrow> kv s' k = kv s k)"
proof -
  let ?users = "filter (\<lambda>h. h \<noteq> fmempty) (map (\<lambda>m. record_at s (''users:'' @ m)) ms)"
  let ?to_pop = "filter (\<lambda>m. record_at s (''users:'' @ m) = fmempty) ms"
  let ?keep = "filter (\<lambda>m. record_at s (''users:'' @ m) \<noteq> fmempty) ms"
  have l: "get_users_loop s ms [] [] = Inr (?users, ?to_pop)"
    using get_users_loop_result [of ms s "[]" "[]"] ok by (simp add: get_user_def)
  have keep: "filter (\<lambda>m. m \<notin> set ?to_pop) ms = ?keep"
    by (rule filter_cong) auto
  show ?thesis
  proof (cases "?to_pop = []")
    case True
    then have "?keep = ms" by (auto simp: filter_empty_conv filter_id_conv)
    then show ?thesis using ms l True by (simp add: get_users_def)
  next
    case False
    obtain s' where "srem s ''users'' ?to_pop = Inr s'"
      and "smembers s' ''users'' = Inr (filter (\<lambda>m. m \<notin> set ?to_pop) ms)"
      and "\<forall>k'. k' \<noteq> ''users'' \<longrightarrow> kv s' k' = kv s k'"
      using srem_ok [OF ms] by blast
    then show ?thesis using ms l False keep by (simp add: get_users_def)
  qed
qed






section \<open>The example store, evaluated\<close>

lemma demo_get_users:
  "fst (get_users demo_store) =
     Inr [fmap_of_list [(''session_id'', ''u2''), (''last_seen'', ''2024-01-02'')],
          fmap_of_list [(''session_id'', ''u1''), (''last_seen'', ''2024-01-01'')]]"
  by (simp add: get_users_def smembers_def hgetall_def srem_def sort_by_item_desc_def getitem_def
      demo_store_def)

lemma demo_get_tasks:
  "get_tasks demo_store (Incl 0) PosInf =
     Inr [fmap_of_list [(''uuid'', ''t2''), (''save_date'', ''2024-01-02T00:00:00+00:00'')],
          fmap_of_list [(''uuid'', ''t1''), (''save_date'', ''2024-01-01T00:00:00+00:00'')]]"
  by (simp add: get_tasks_def zrevrangebyscore_def in_range_def get_task_def hgetall_def
      sort_by_item_desc_def getitem_def demo_store_def)

lemma demo_get_roles:
  "get_roles demo_store = Inr [fmap_of_list [(''name'', ''admin'')], fmap_of_list [(''name'', ''reader'')]]"
  by (simp add: get_roles_def get_role_def smembers_def hgetall_def demo_store_def)

lemma demo_users_index: "smembers demo_store ''users'' = Inr [''u1'', ''gone'', ''u2'']"
  by (simp add: smembers_def demo_store_def)

lemma demo_users_gone: "get_user demo_store ''gone'' = Inr fmempty"
  by (simp add: get_user_def hgetall_def demo_store_def)

lemma demo_users_ok:
  "\<forall>m\<in>set [''u1'', ''gone'', ''u2''].
     \<exists>h. get_user demo_store m = Inr h \<and> (h = fmempty \<or> fmlookup h ''last_seen'' \<noteq> None)"
  by (simp add: get_user_def hgetall_def demo_store_def)






lemma demo_tasks_backed: "tasks_backed demo_store"
  by (simp add: tasks_backed_def demo_store_def)

lemma demo_roles_named:
  "\<forall>n\<in>set [''reader'', ''admin'']. \<exists>r. get_role demo_store n = Inr r \<and> fmlookup r ''name'' = Some n"
  by (simp add: get_role_def hgetall_def demo_store_def)

lemma demo_roles_index: "smembers demo_store ''roles'' = Inr [''reader'', ''admin'']"
  by (simp add: smembers_def demo_store_def)

lemma demo_users_records:
  "get_user demo_store ''u1''
     = Inr (fmap_of_list [(''session_id'', ''u1''), (''last_seen'', ''2024-01-01'')])"
  "get_user demo_store ''u2''
     = Inr (fmap_of_list [(''session_id'', ''u2''), (''last_seen'', ''2024-01-02'')])"
  by (simp_all add: get_user_def hgetall_def demo_store_def)

lemma demo_roles_records:
  "get_role demo_store ''reader'' = Inr (fmap_of_list [(''name'', ''reader'')])"
  "get_role demo_store ''admin'' = Inr (fmap_of_list [(''name'', ''admin'')])"
  by (simp_all add: get_role_def hgetall_def demo_store_def)


section \<open>One write, then one read\<close>


text \<open>The two other outcomes of the \<open>expire\<close> step: a time-to-live the store refuses makes
  \<open>set_user\<close> raise after the record is written and before the id reaches the index; a
  time-to-live that is not positive deletes the record that was just written.\<close>

lemma set_user_ttl_refused:
  assumes r: "fmlookup user ''session_id'' = Some sid"
    and big: "llong_max div 1000 < session_expire"
    and h: "get_user s sid = Inr old"
  shows "\<exists>e. set_user session_expire now_ms s user
              = (Inl e, put s (''users:'' @ sid) (Hash (old ++\<^sub>f user)))"
proof -
  let ?k = "''users:'' @ sid"
  let ?s1 = "put s ?k (Hash (old ++\<^sub>f user))"
  have w: "hmset s ?k user = Inr ?s1"
    using h fmdom_nonempty [OF r] by (simp add: hmset_ok get_user_def)
  obtain e where "expire now_ms ?s1 ?k session_expire = Inl e"
    using expire_rejects [OF big] by blast
  then have "set_user session_expire now_ms s user = (Inl e, ?s1)"
    using r w by (simp add: set_user_def getitem_Some)
  then show ?thesis by blast
qed

lemma set_user_ttl_not_positive:
  assumes r: "fmlookup user ''session_id'' = Some sid"
    and np: "session_expire \<le> 0"
    and fits: "- ((llong_max + 1) div 1000) \<le> session_expire"
      "session_expire * 1000 \<le> llong_max - now_ms"
    and h: "get_user s sid = Inr old"
    and m: "smembers s ''users'' = Inr ms"
  shows "\<exists>s'. set_user session_expire now_ms s user = (Inr (), s')
           \<and> get_user s' sid = Inr fmempty"
proof -
  let ?k = "''users:'' @ sid"
  let ?s1 = "put s ?k (Hash (old ++\<^sub>f user))"
  let ?s2 = "del_key ?s1 ?k"
  have w: "hmset s ?k user = Inr ?s1"
    using h fmdom_nonempty [OF r] by (simp add: hmset_ok get_user_def)
  have x: "expire now_ms ?s1 ?k session_expire = Inr ?s2"
    using expire_deletes [OF np fits] by simp
  have "smembers ?s2 ''users'' = Inr ms"
    using m by (simp add: smembers_def)
  then obtain s3 where a: "sadd ?s2 ''users'' sid = Inr s3"
    and fr: "\<forall>k'. k' \<noteq> ''users'' \<longrightarrow> kv s3 k' = kv ?s2 k'"
    using sadd_ok by blast
  have "set_user session_expire now_ms s user = (Inr (), s3)"
    using r w x a by (simp add: set_user_def getitem_Some)
  moreover have "get_user s3 sid = Inr fmempty"
    using fr by (simp add: get_user_def hgetall_def)
  ultimately show ?thesis by blast
qed





section \<open>Malformed timestamps\<close>

text \<open>
  C8. For every record whose timestamp field (\<open>last_seen\<close> for \<open>set_observable\<close>,
  \<open>save_date\<close> for \<open>set_task\<close>) is not a parseable date string, the set operation raises
  the parsing error (\<open>ValueError\<close>), and the store state is unchanged: the parse happens
  before any write.
\<close>

theorem malformed_timestamp_fails_fast:
  assumes "fromisoformat x = None"
  shows "(fmlookup observable ''last_seen'' = Some x \<longrightarrow>
            set_observable fromisoformat s observable = (Inl ValueError, s))
       \<and> (fmlookup task ''save_date'' = Some x \<longrightarrow>
            set_task fromisoformat s task = (Inl ValueError, s))"
  using assms by (auto simp: set_observable_def set_task_def getitem_def timestamp_of_def)

theorem malformed_timestamp_fails_fast_witness:
  "iso_demo ''yesterday'' = None
   \<and> fmlookup (fmap_of_list [(''sha256'', ''ab''), (''observable_type'', ''ip''), (''last_seen'', ''yesterday'')]) ''last_seen'' = Some ''yesterday''
   \<and> set_observable iso_demo empty_store
        (fmap_of_list [(''sha256'', ''ab''), (''observable_type'', ''ip''), (''last_seen'', ''yesterday'')])
      = (Inl ValueError, empty_store)
   \<and> fmlookup (fmap_of_list [(''uuid'', ''t1''), (''save_date'', ''yesterday'')]) ''save_date'' = Some ''yesterday''
   \<and> set_task iso_demo empty_store (fmap_of_list [(''uuid'', ''t1''), (''save_date'', ''yesterday'')])
      = (Inl ValueError, empty_store)"
  using malformed_timestamp_fails_fast [where fromisoformat = iso_demo and x = "''yesterday''"
      and observable = "fmap_of_list [(''sha256'', ''ab''), (''observable_type'', ''ip''), (''last_seen'', ''yesterday'')]"
      and task = "fmap_of_list [(''uuid'', ''t1''), (''save_date'', ''yesterday'')]" and s = empty_store]
  by (simp add: iso_demo_def)

section \<open>Composite lookup\<close>

text \<open>
  C9. For all strings \<open>S\<close> and \<open>Ty\<close> and on every store state,
  \<open>get_observable(sha256=S, observable_type=Ty)\<close> and
  \<open>get_observable(identifier=f"{S}-{Ty}")\<close> return the same record (or raise the same
  error).
\<close>

theorem get_observable_composite_equiv:
  "get_observable s (Some S) (Some Ty) None = get_observable s None None (Some (S @ ''-'' @ Ty))"
  by (simp add: get_observable_def fmt_def)

section \<open>Suspicious observables\<close>

text \<open>
  C10. For all strings \<open>v\<close> and \<open>t\<close>, calling \<open>add_suspicious_observable(v, t)\<close> twice
  leaves what one call leaves: the \<open>suspicious_observables\<close> hash with exactly one entry
  for \<open>v.strip()\<close>, mapped to \<open>t.strip()\<close> (its other entries as before). Then
  \<open>delete_suspicious_observable(v')\<close> removes that entry whenever \<open>v'\<close> trims to the same
  key. The hypothesis says that the key holds a hash or nothing.
\<close>

theorem add_suspicious_observable_idempotent:
  assumes "get_suspicious_observables s = Inr h"
  shows "\<exists>s1. add_suspicious_observable s v t = (Inr (), s1)
          \<and> add_suspicious_observable s1 v t = (Inr (), s1)
          \<and> get_suspicious_observables s1 = Inr (fmupd (strip v) (strip t) h)
          \<and> (\<forall>v'. strip v' = strip v \<longrightarrow>
                (\<exists>s2. delete_suspicious_observable s1 v' = (Inr (), s2)
                   \<and> get_suspicious_observables s2 = Inr (fmdrop (strip v) h)))"
proof -
  let ?k = "''suspicious_observables''"
  let ?s1 = "put s ?k (Hash (fmupd (strip v) (strip t) h))"
  have h0: "hgetall s ?k = Inr h"
    using assms by (simp add: get_suspicious_observables_def)
  have a1: "add_suspicious_observable s v t = (Inr (), ?s1)"
    by (simp add: add_suspicious_observable_def hset_ok [OF h0])
  have h1: "hgetall ?s1 ?k = Inr (fmupd (strip v) (strip t) h)"
    by simp
  have a2: "add_suspicious_observable ?s1 v t = (Inr (), ?s1)"
    by (simp add: add_suspicious_observable_def hset_ok [OF h1])
  have d: "\<exists>s2. delete_suspicious_observable ?s1 v' = (Inr (), s2)
             \<and> get_suspicious_observables s2 = Inr (fmdrop (strip v) h)"
    if "strip v' = strip v" for v'
  proof -
    obtain s2 where "hdel ?s1 ?k (strip v) = Inr s2"
      and "hgetall s2 ?k = Inr (fmdrop (strip v) (fmupd (strip v) (strip t) h))"
      using hdel_ok [OF h1, of "strip v"] by blast
    then show ?thesis
      using that
      by (simp add: delete_suspicious_observable_def get_suspicious_observables_def
          fmdrop_fmupd_same)
  qed
  show ?thesis
    using a1 a2 h1 d by (auto simp: get_suspicious_observables_def)
qed

theorem add_suspicious_observable_idempotent_witness:
  "get_suspicious_observables empty_store = Inr fmempty
   \<and> strip ''evil.example'' = strip '' evil.example  ''
   \<and> (\<exists>s1. add_suspicious_observable empty_store '' evil.example  '' ''domain '' = (Inr (), s1)
         \<and> add_suspicious_observable s1 '' evil.example  '' ''domain '' = (Inr (), s1)
         \<and> get_suspicious_observables s1 = Inr (fmupd ''evil.example'' ''domain'' fmempty)
         \<and> (\<exists>s2. delete_suspicious_observable s1 ''evil.example'' = (Inr (), s2)
               \<and> get_suspicious_observables s2 = Inr fmempty))"
proof -
  have a: "get_suspicious_observables empty_store = Inr fmempty"
    by (simp add: get_suspicious_observables_def hgetall_def empty_store_def)
  have b: "strip ''evil.example'' = strip '' evil.example  ''"
    and c: "strip '' evil.example  '' = ''evil.example''" and d: "strip ''domain '' = ''domain''"
    by (simp_all add: strip_def isspace_def)
  show ?thesis
    using a b add_suspicious_observable_idempotent [OF a, of "'' evil.example  ''" "''domain ''"]
    unfolding c d by auto
qed

section \<open>Reports invalidate the cached task status\<close>

text \<open>
  C7. For every report record \<open>r\<close> with \<open>task_uuid = T\<close> and \<open>worker_name = W\<close>,
  \<open>set_report(r)\<close> stores the report under \<open>reports:T-W\<close> and removes the \<open>status\<close> field
  from the task record \<open>tasks:T\<close> if present; every other field of that task record, and
  every other key of the store, is unchanged. The last two hypotheses say that both keys
  hold a hash or nothing.
\<close>

theorem set_report_clears_status:
  assumes "fmlookup report ''task_uuid'' = Some T"
    and "fmlookup report ''worker_name'' = Some W"
    and "get_report s T W = Inr old"
    and "get_task s T = Inr task"
  shows "\<exists>s'. set_report s report = (Inr (), s')
           \<and> get_report s' T W = Inr (old ++\<^sub>f report)
           \<and> get_task s' T = Inr (fmdrop ''status'' task)
           \<and> (\<forall>k. k \<noteq> ''reports:'' @ T @ ''-'' @ W \<and> k \<noteq> ''tasks:'' @ T \<longrightarrow> kv s' k = kv s k)"
  using assms by (rule set_report_result)

theorem set_report_clears_status_witness:
  "fmlookup (fmap_of_list [(''task_uuid'', ''t1''), (''worker_name'', ''clamav''), (''status'', ''OKAY'')])
      ''task_uuid'' = Some ''t1''
   \<and> fmlookup (fmap_of_list [(''task_uuid'', ''t1''), (''worker_name'', ''clamav''), (''status'', ''OKAY'')])
      ''worker_name'' = Some ''clamav''
   \<and> get_report (put empty_store ''tasks:t1''
         (Hash (fmap_of_list [(''uuid'', ''t1''), (''status'', ''RUNNING'')]))) ''t1'' ''clamav''
       = Inr fmempty
   \<and> get_task (put empty_store ''tasks:t1''
         (Hash (fmap_of_list [(''uuid'', ''t1''), (''status'', ''RUNNING'')]))) ''t1''
       = Inr (fmap_of_list [(''uuid'', ''t1''), (''status'', ''RUNNING'')])
   \<and> (\<exists>s'. set_report (put empty_store ''tasks:t1''
               (Hash (fmap_of_list [(''uuid'', ''t1''), (''status'', ''RUNNING'')])))
             (fmap_of_list [(''task_uuid'', ''t1''), (''worker_name'', ''clamav''), (''status'', ''OKAY'')])
           = (Inr (), s')
         \<and> (\<exists>t. get_task s' ''t1'' = Inr t \<and> fmlookup t ''status'' = None
                 \<and> fmlookup t ''uuid'' = Some ''t1''))"
proof -
  let ?r = "fmap_of_list [(''task_uuid'', ''t1''), (''worker_name'', ''clamav''), (''status'', ''OKAY'')]"
  let ?t = "fmap_of_list [(''uuid'', ''t1''), (''status'', ''RUNNING'')]"
  let ?s = "put empty_store ''tasks:t1'' (Hash ?t)"
  have a: "fmlookup ?r ''task_uuid'' = Some ''t1''" and b: "fmlookup ?r ''worker_name'' = Some ''clamav''"
    by simp_all
  have c: "get_report ?s ''t1'' ''clamav'' = Inr fmempty"
    by (simp add: get_report_def hgetall_def put_def empty_store_def)
  have d: "get_task ?s ''t1'' = Inr ?t"
    by (simp add: get_task_def hgetall_def put_def)
  obtain s' where "set_report ?s ?r = (Inr (), s')"
    and "get_task s' ''t1'' = Inr (fmdrop ''status'' ?t)"
    using set_report_clears_status [OF a b c d] by blast
  then have "\<exists>s'. set_report ?s ?r = (Inr (), s')
         \<and> (\<exists>t. get_task s' ''t1'' = Inr t \<and> fmlookup t ''status'' = None
                 \<and> fmlookup t ''uuid'' = Some ''t1'')"
    by auto
  then show ?thesis using a b c d by blast
qed


section \<open>Writing a session twice\<close>




section \<open>Counting and listing tasks\<close>

text \<open>
  C4. For all bounds \<open>a\<close> and \<open>b\<close>, \<open>count_tasks(first_date=a, last_date=b)\<close> equals
  \<open>len(get_tasks(first_date=a, last_date=b))\<close>: whenever \<open>get_tasks\<close> returns a list,
  \<open>count_tasks\<close> returns its length; and on every store in which each indexed task has a
  record with a \<open>save_date\<close>, the two agree outright, a rejected bound or a key of the wrong
  type raising the same error in both.
\<close>

theorem count_tasks_equals_len_get_tasks:
  "(get_tasks s a b = Inr ts \<longrightarrow> count_tasks s a b = Inr (length ts))
   \<and> (tasks_backed s \<longrightarrow> count_tasks s a b = map_sum id length (get_tasks s a b))"
proof (intro conjI impI)
  assume "get_tasks s a b = Inr ts"
  then show "count_tasks s a b = Inr (length ts)" by (rule get_tasks_length)
next
  assume b: "tasks_backed s"
  show "count_tasks s a b = map_sum id length (get_tasks s a b)"
  proof (cases "zrevrangebyscore s ''tasks'' a b")
    case (Inl e)
    then show ?thesis
      by (simp add: count_tasks_def zcount_zrevrangebyscore get_tasks_def)
  next
    case (Inr us)
    then obtain ts' where "get_tasks s a b = Inr ts'"
      using get_tasks_total [OF b] by blast
    then show ?thesis using get_tasks_length by simp
  qed
qed

theorem count_tasks_equals_len_get_tasks_witness:
  "tasks_backed demo_store
   \<and> get_tasks demo_store (Incl 0) PosInf =
       Inr [fmap_of_list [(''uuid'', ''t2''), (''save_date'', ''2024-01-02T00:00:00+00:00'')],
            fmap_of_list [(''uuid'', ''t1''), (''save_date'', ''2024-01-01T00:00:00+00:00'')]]
   \<and> count_tasks demo_store (Incl 0) PosInf = Inr 2
   \<and> count_tasks demo_store (Incl 0) PosInf
       = map_sum id length (get_tasks demo_store (Incl 0) PosInf)"
proof -
  note T = count_tasks_equals_len_get_tasks [of demo_store "Incl 0" PosInf
      "[fmap_of_list [(''uuid'', ''t2''), (''save_date'', ''2024-01-02T00:00:00+00:00'')],
        fmap_of_list [(''uuid'', ''t1''), (''save_date'', ''2024-01-01T00:00:00+00:00'')]]"]
  have 1: "count_tasks demo_store (Incl 0) PosInf = Inr 2"
    using T demo_get_tasks by simp
  have 2: "count_tasks demo_store (Incl 0) PosInf
       = map_sum id length (get_tasks demo_store (Incl 0) PosInf)"
    using T demo_tasks_backed by blast
  show ?thesis
    using demo_tasks_backed demo_get_tasks 1 2 by (intro conjI)
qed

section \<open>Listing order\<close>

text \<open>
  C5. \<open>get_users\<close> returns records sorted by their \<open>last_seen\<close> field, descending;
  \<open>get_tasks\<close> returns records sorted by their \<open>save_date\<close> field, descending; \<open>get_roles\<close>
  returns the records of the role names in ascending order of name (and, where every role
  record carries its own name, the \<open>name\<close> fields of the result are that ascending list).
  The fields are compared as strings.
\<close>

theorem listing_order:
  "(fst (get_users s) = Inr us \<longrightarrow>
      (\<exists>ks. map (\<lambda>u. fmlookup u ''last_seen'') us = map Some ks \<and> sorted (rev ks)))
   \<and> (get_tasks s a b = Inr ts \<longrightarrow>
      (\<exists>ks. map (\<lambda>t. fmlookup t ''save_date'') ts = map Some ks \<and> sorted (rev ks)))
   \<and> (get_roles s = Inr rs \<longrightarrow>
      (\<exists>ms names. smembers s ''roles'' = Inr ms \<and> names = sort ms \<and> sorted names
           \<and> map (get_role s) names = map Inr rs
           \<and> ((\<forall>n\<in>set ms. \<exists>r. get_role s n = Inr r \<and> fmlookup r ''name'' = Some n)
                \<longrightarrow> map (\<lambda>r. fmlookup r ''name'') rs = map Some names)))"
proof (intro conjI impI)
  assume "fst (get_users s) = Inr us"
  then show "\<exists>ks. map (\<lambda>u. fmlookup u ''last_seen'') us = map Some ks \<and> sorted (rev ks)"
    by (rule get_users_sorted)
next
  assume "get_tasks s a b = Inr ts"
  then show "\<exists>ks. map (\<lambda>t. fmlookup t ''save_date'') ts = map Some ks \<and> sorted (rev ks)"
    by (rule get_tasks_sorted)
next
  assume "get_roles s = Inr rs"
  then show "\<exists>ms names. smembers s ''roles'' = Inr ms \<and> names = sort ms \<and> sorted names
           \<and> map (get_role s) names = map Inr rs
           \<and> ((\<forall>n\<in>set ms. \<exists>r. get_role s n = Inr r \<and> fmlookup r ''name'' = Some n)
                \<longrightarrow> map (\<lambda>r. fmlookup r ''name'') rs = map Some names)"
    by (rule get_roles_sorted)
qed

theorem listing_order_witness:
  "fst (get_users demo_store) =
     Inr [fmap_of_list [(''session_id'', ''u2''), (''last_seen'', ''2024-01-02'')],
          fmap_of_list [(''session_id'', ''u1''), (''last_seen'', ''2024-01-01'')]]
   \<and> get_tasks demo_store (Incl 0) PosInf =
       Inr [fmap_of_list [(''uuid'', ''t2''), (''save_date'', ''2024-01-02T00:00:00+00:00'')],
            fmap_of_list [(''uuid'', ''t1''), (''save_date'', ''2024-01-01T00:00:00+00:00'')]]
   \<and> get_roles demo_store =
       Inr [fmap_of_list [(''name'', ''admin'')], fmap_of_list [(''name'', ''reader'')]]
   \<and> smembers demo_store ''roles'' = Inr [''reader'', ''admin'']
   \<and> get_role demo_store ''reader'' = Inr (fmap_of_list [(''name'', ''reader'')])
   \<and> get_role demo_store ''admin'' = Inr (fmap_of_list [(''name'', ''admin'')])
   \<and> (\<exists>ks. map (\<lambda>u. fmlookup u ''last_seen'')
               [fmap_of_list [(''session_id'', ''u2''), (''last_seen'', ''2024-01-02'')],
                fmap_of_list [(''session_id'', ''u1''), (''last_seen'', ''2024-01-01'')]]
             = map Some ks \<and> sorted (rev ks))
   \<and> (\<exists>ks. map (\<lambda>t. fmlookup t ''save_date'')
               [fmap_of_list [(''uuid'', ''t2''), (''save_date'', ''2024-01-02T00:00:00+00:00'')],
                fmap_of_list [(''uuid'', ''t1''), (''save_date'', ''2024-01-01T00:00:00+00:00'')]]
             = map Some ks \<and> sorted (rev ks))
   \<and> map (\<lambda>r. fmlookup r ''name'')
         [fmap_of_list [(''name'', ''admin'')], fmap_of_list [(''name'', ''reader'')]]
       = map Some (sort [''reader'', ''admin''])"
proof -
  let ?us = "[fmap_of_list [(''session_id'', ''u2''), (''last_seen'', ''2024-01-02'')],
              fmap_of_list [(''session_id'', ''u1''), (''last_seen'', ''2024-01-01'')]]"
  let ?ts = "[fmap_of_list [(''uuid'', ''t2''), (''save_date'', ''2024-01-02T00:00:00+00:00'')],
              fmap_of_list [(''uuid'', ''t1''), (''save_date'', ''2024-01-01T00:00:00+00:00'')]]"
  let ?rs = "[fmap_of_list [(''name'', ''admin'')], fmap_of_list [(''name'', ''reader'')]]"
  note T = listing_order [of demo_store ?us "Incl 0" PosInf ?ts ?rs]
  have 1: "\<exists>ks. map (\<lambda>u. fmlookup u ''last_seen'') ?us = map Some ks \<and> sorted (rev ks)"
    using T demo_get_users by blast
  have 2: "\<exists>ks. map (\<lambda>t. fmlookup t ''save_date'') ?ts = map Some ks \<and> sorted (rev ks)"
    using T demo_get_tasks by blast
  obtain ms names where r: "smembers demo_store ''roles'' = Inr ms" "names = sort ms"
    and imp: "(\<forall>n\<in>set ms. \<exists>r. get_role demo_store n = Inr r \<and> fmlookup r ''name'' = Some n)
                \<longrightarrow> map (\<lambda>r. fmlookup r ''name'') ?rs = map Some names"
    using T demo_get_roles by blast
  have ms: "ms = [''reader'', ''admin'']"
    using r(1) demo_roles_index by simp
  have 3: "map (\<lambda>r. fmlookup r ''name'') ?rs = map Some (sort [''reader'', ''admin''])"
    using imp demo_roles_named r(2) unfolding ms by blast
  show ?thesis
    using demo_get_users demo_get_tasks demo_get_roles demo_roles_index demo_roles_records 1 2 3
    by (intro conjI)
qed

section \<open>Self-healing of the session index\<close>

text \<open>
  C6. For every session id \<open>x\<close> that is a member of the \<open>users\<close> membership set but whose
  record is missing (expired), \<open>get_users\<close> returns a list that excludes it (the list holds
  exactly the non-empty records of the members), and afterwards \<open>x\<close> is no longer a member
  of the set. The last hypothesis says that the listing can return at all: every member's
  key holds nothing or a hash with a \<open>last_seen\<close> field.
\<close>

theorem get_users_prunes_expired:
  assumes ms: "smembers s ''users'' = Inr ms"
    and x: "x \<in> set ms"
    and gone: "get_user s x = Inr fmempty"
    and ok: "\<forall>m\<in>set ms. \<exists>h. get_user s m = Inr h \<and> (h = fmempty \<or> fmlookup h ''last_seen'' \<noteq> None)"
  shows "\<exists>us s' ms'. get_users s = (Inr us, s')
           \<and> set us = {h. h \<noteq> fmempty \<and> (\<exists>m\<in>set ms. get_user s m = Inr h)}
           \<and> (\<forall>u\<in>set us. get_user s x \<noteq> Inr u)
           \<and> smembers s' ''users'' = Inr ms' \<and> x \<notin> set ms'
           \<and> set ms' = {m \<in> set ms. get_user s m \<noteq> Inr fmempty}"
proof -
  let ?rec = "\<lambda>m. record_at s (''users:'' @ m)"
  let ?users = "filter (\<lambda>h. h \<noteq> fmempty) (map ?rec ms)"
  let ?keep = "filter (\<lambda>m. ?rec m \<noteq> fmempty) ms"
  have rec: "get_user s m = Inr (?rec m)" if mem: "m \<in> set ms" for m
  proof -
    obtain h where h: "get_user s m = Inr h" using ok mem by blast
    then have "hgetall s (''users:'' @ m) = Inr h" by (simp add: get_user_def)
    then have "?rec m = h" by (rule hgetall_record_at)
    then show ?thesis using h by simp
  qed
  have ok': "\<forall>m\<in>set ms. \<exists>h. get_user s m = Inr h" using ok by blast
  obtain s' where g: "get_users s = (sort_by_item_desc ''last_seen'' ?users, s')"
    and m': "smembers s' ''users'' = Inr ?keep"
    using get_users_result [OF ms ok'] by blast
  have "\<forall>d\<in>set ?users. fmlookup d ''last_seen'' \<noteq> None"
  proof
    fix d assume "d \<in> set ?users"
    then obtain m where m: "m \<in> set ms" "d = ?rec m" "d \<noteq> fmempty" by auto
    obtain h where "get_user s m = Inr h" "h = fmempty \<or> fmlookup h ''last_seen'' \<noteq> None"
      using ok m(1) by blast
    then show "fmlookup d ''last_seen'' \<noteq> None"
      using rec [OF m(1)] m(2,3) by simp
  qed
  then obtain us where srt: "sort_by_item_desc ''last_seen'' ?users = Inr us"
    using sort_by_item_desc_total by blast
  have su: "set us = set ?users"
    using sort_by_item_desc_set [OF srt] by simp
  have 1: "set us = {h. h \<noteq> fmempty \<and> (\<exists>m\<in>set ms. get_user s m = Inr h)}"
  proof (rule set_eqI)
    fix h
    have "h \<in> set ?users \<longleftrightarrow> h \<noteq> fmempty \<and> (\<exists>m\<in>set ms. ?rec m = h)"
      by auto
    also have "\<dots> \<longleftrightarrow> h \<noteq> fmempty \<and> (\<exists>m\<in>set ms. get_user s m = Inr h)"
      using rec by (metis sum.inject(2))
    finally show "h \<in> set us \<longleftrightarrow> h \<in> {h. h \<noteq> fmempty \<and> (\<exists>m\<in>set ms. get_user s m = Inr h)}"
      using su by simp
  qed
  have 2: "\<forall>u\<in>set us. get_user s x \<noteq> Inr u"
    using 1 gone by auto
  have 3: "x \<notin> set ?keep"
    using rec [OF x] gone by simp
  have 4: "set ?keep = {m \<in> set ms. get_user s m \<noteq> Inr fmempty}"
  proof (rule set_eqI)
    fix m
    show "m \<in> set ?keep \<longleftrightarrow> m \<in> {m \<in> set ms. get_user s m \<noteq> Inr fmempty}"
      using rec [of m] by (cases "m \<in> set ms") simp_all
  qed
  have "get_users s = (Inr us, s')" using g srt by simp
  then show ?thesis
    using 1 2 m' 3 4 by (intro exI conjI)
qed

theorem get_users_prunes_expired_witness:
  "smembers demo_store ''users'' = Inr [''u1'', ''gone'', ''u2'']
   \<and> ''gone'' \<in> set [''u1'', ''gone'', ''u2'']
   \<and> get_user demo_store ''gone'' = Inr fmempty
   \<and> get_user demo_store ''u1''
        = Inr (fmap_of_list [(''session_id'', ''u1''), (''last_seen'', ''2024-01-01'')])
   \<and> get_user demo_store ''u2''
        = Inr (fmap_of_list [(''session_id'', ''u2''), (''last_seen'', ''2024-01-02'')])
   \<and> (\<exists>us s' ms'. get_users demo_store = (Inr us, s')
         \<and> (\<forall>u\<in>set us. get_user demo_store ''gone'' \<noteq> Inr u)
         \<and> smembers s' ''users'' = Inr ms' \<and> ''gone'' \<notin> set ms')"
proof -
  have x: "''gone'' \<in> set [''u1'', ''gone'', ''u2'']" by simp
  have "\<exists>us s' ms'. get_users demo_store = (Inr us, s')
         \<and> (\<forall>u\<in>set us. get_user demo_store ''gone'' \<noteq> Inr u)
         \<and> smembers s' ''users'' = Inr ms' \<and> ''gone'' \<notin> set ms'"
    using get_users_prunes_expired [OF demo_users_index x demo_users_gone demo_users_ok]
    by blast
  then show ?thesis
    using demo_users_index x demo_users_gone demo_users_records by (intro conjI)
qed

section \<open>Dangling index entries\<close>




section \<open>Round trip\<close>




end
